theory Spec2Isabelle
  imports Main "HOL-Library.Word"
begin

section \<open>Bytes, decimal formatting and lines\<close>

text \<open>
  Byte buffers (\<open>bytes.Buffer\<close>, \<open>[]byte\<close>, the standard streams) are lists of
  8-bit characters.
\<close>

type_synonym bytes = string

definition newline :: char where
  "newline = CHR 0x0A"

definition digit_char :: "nat \<Rightarrow> char" where
  "digit_char d = ''0123456789'' ! d"

fun dec_nat :: "nat \<Rightarrow> bytes" where
  "dec_nat n = (if n < 10 then [digit_char n] else dec_nat (n div 10) @ [digit_char (n mod 10)])"

declare dec_nat.simps [simp del]

definition dec_int :: "int \<Rightarrow> bytes" where
  "dec_int i = (if i < 0 then CHR ''-'' # dec_nat (nat (- i)) else dec_nat (nat i))"

text \<open>\<open>fmt.Fprintf(w, "%d\n", iteration)\<close> for an \<open>int64\<close> argument.\<close>

definition fmt_int64_line :: "64 word \<Rightarrow> bytes" where
  "fmt_int64_line i = dec_int (sint i) @ [newline]"

text \<open>\<open>fmt.Printf("%d\n", uint64(p))\<close>.\<close>

definition fmt_uint64_line :: "64 word \<Rightarrow> bytes" where
  "fmt_uint64_line p = dec_nat (unat p) @ [newline]"

text \<open>
  The terminated lines of a buffer: every maximal run of bytes that ends in a newline,
  without the newline. Bytes after the last newline are an unterminated rest and are
  not a line.
\<close>

fun lines_acc :: "bytes \<Rightarrow> bytes \<Rightarrow> bytes list" where
  "lines_acc acc [] = []"
| "lines_acc acc (c # cs) =
     (if c = newline then rev acc # lines_acc [] cs else lines_acc (c # acc) cs)"

definition lines_of :: "bytes \<Rightarrow> bytes list" where
  "lines_of s = lines_acc [] s"

text \<open>A buffer that is exactly one terminated line: no newline but the last byte.\<close>

definition one_line :: "bytes \<Rightarrow> bool" where
  "one_line s = (s \<noteq> [] \<and> last s = newline \<and> newline \<notin> set (butlast s))"

section \<open>Size profiles\<close>

record profile =
  minSize :: nat
  maxSize :: nat
  averageBits :: nat

definition kiB :: nat where "kiB = 1024"
definition miB :: nat where "miB = 1024 * kiB"

definition SmallMinSize :: nat where "SmallMinSize = 512 * kiB"
definition SmallMaxSize :: nat where "SmallMaxSize = 8 * miB"
definition SmallBits :: nat where "SmallBits = 20"

definition StandardMinSize :: nat where "StandardMinSize = 512 * kiB"
definition StandardMaxSize :: nat where "StandardMaxSize = 16 * miB"
definition StandardBits :: nat where "StandardBits = 22"

definition LargeMinSize :: nat where "LargeMinSize = 1024 * kiB"
definition LargeMaxSize :: nat where "LargeMaxSize = 32 * miB"
definition LargeBits :: nat where "LargeBits = 23"

definition small_profile :: profile where
  "small_profile = \<lparr>minSize = SmallMinSize, maxSize = SmallMaxSize, averageBits = SmallBits\<rparr>"

definition standard_profile :: profile where
  "standard_profile =
     \<lparr>minSize = StandardMinSize, maxSize = StandardMaxSize, averageBits = StandardBits\<rparr>"

definition large_profile :: profile where
  "large_profile = \<lparr>minSize = LargeMinSize, maxSize = LargeMaxSize, averageBits = LargeBits\<rparr>"

text \<open>The SizeProfile invariant of the data model.\<close>

definition profile_ok :: "profile \<Rightarrow> bool" where
  "profile_ok p =
     (minSize p < maxSize p \<and> minSize p \<le> 2 ^ averageBits p \<and> 2 ^ averageBits p \<le> maxSize p)"

section \<open>Command line\<close>

text \<open>The values of the flags and the positional arguments after \<open>flag.Parse()\<close>.\<close>

record flags =
  newPolynomial :: bool
  checkPolynomial :: bool
  smallChunks :: bool
  largeChunks :: bool
  polynomialInt :: "64 word"
  cmdArgs :: "string list"

definition default_polynomial :: "64 word" where
  "default_polynomial = 0x3DA3358B4DC173"

text \<open>
  The \<open>if *smallChunks ... else if *largeChunks ... else ...\<close> chain, the same in both
  programs: the profile handed to \<open>chunker.NewWithBoundaries\<close> and
  \<open>SetAverageBits\<close>.
\<close>

definition select_profile :: "flags \<Rightarrow> profile" where
  "select_profile f =
     (if smallChunks f then small_profile
      else if largeChunks f then large_profile
      else standard_profile)"

section \<open>External collaborators\<close>

text \<open>
  A reader handed to the chunking engine: the bytes it delivers and whether reading ends
  in an I/O error instead of end of file. \<open>os.Stdin\<close> is such a reader; a
  \<open>bytes.Buffer\<close> never fails.
\<close>

datatype reader = Reader (content: bytes) (read_error: bool)

text \<open>
  What the successive calls of \<open>cchunker.Next(buf)\<close> return: the chunks in order,
  then \<open>io.EOF\<close> or another error. The engine is deterministic and no subprocess
  reads from its reader (each gets its chunk as stdin), so the whole sequence is a
  function of the reader, the polynomial and the profile. The buffer \<open>buf\<close> is only
  the storage of the chunk that \<open>Next\<close> returns, used up before the next call.
\<close>

datatype src_end = AtEOF | NextError

text \<open>One run of the external processor: the chunk fed to its stdin, the bytes it
  wrote to its stdout, and whether \<open>cmd.Run()\<close> returned \<open>nil\<close>.\<close>

record dispatch =
  chunk :: bytes
  out :: bytes
  ok :: bool

text \<open>
  The library \<open>github.com/restic/chunker\<close>, \<open>os/exec\<close> and the standard
  output are not code of this repository; they are parameters of the model. The
  outside world is a state \<open>'w\<close> that every subprocess may change.
  A write to \<open>os.Stdout\<close> returns \<open>None\<close> when all bytes were written and the
  error is \<open>nil\<close>, and \<open>Some n\<close> when it failed after \<open>n\<close> bytes.
\<close>

record 'w env =
  chunker :: "profile \<Rightarrow> 64 word \<Rightarrow> reader \<Rightarrow> bytes list \<times> src_end"
  run_cmd :: "'w \<Rightarrow> string \<times> string list \<Rightarrow> bytes \<Rightarrow> (bytes \<times> bool) \<times> 'w"
  stdout_write :: "'w \<Rightarrow> bytes \<Rightarrow> nat option"
  random_polynomial :: "'w \<Rightarrow> 64 word option"
  irreducible :: "64 word \<Rightarrow> bool"

text \<open>Calls into the polynomial part of the chunking library, in order.\<close>

datatype libcall = CallRandomPolynomial | CallIrreducible "64 word"

text \<open>The diagnostics written to the standard error stream, one per message.\<close>

datatype diag =
    UsageText
  | UnableToGeneratePolynomial
  | UnableToPrintPolynomial
  | NotIrreducible
  | ErrorNextChunk
  | ErrorRunningCommand
  | ErrorWritingSummary

section \<open>Program state\<close>

text \<open>
  The variables of \<open>main\<close> and the standard streams. \<open>cur\<close>, \<open>finished\<close>
  and \<open>calls\<close> record what happened: the dispatches of the level in progress, those
  of the completed levels, and the library calls. \<open>nChunks\<close> is a Go \<open>int\<close>
  (64 bits on a 64-bit platform), \<open>iteration\<close> an \<open>int64\<close>; both wrap around.
\<close>

record 'w state =
  world :: 'w
  input :: reader
  iteration :: "64 word"
  summaryData :: bytes
  summaryLine :: bytes
  nChunks :: "64 word"
  stdout :: bytes
  stderr :: "diag list"
  cur :: "dispatch list"
  finished :: "dispatch list list"
  calls :: "libcall list"

definition init_state :: "reader \<Rightarrow> 'w \<Rightarrow> 'w state" where
  "init_state stdin w =
     \<lparr>world = w, input = stdin, iteration = 0, summaryData = [], summaryLine = [],
      nChunks = 0, stdout = [], stderr = [], cur = [], finished = [], calls = []\<rparr>"

text \<open>
  A result \<open>Inl s\<close> is \<open>os.Exit(1)\<close> in state \<open>s\<close>; \<open>Inr s\<close> is normal
  completion (of a statement, or of \<open>main\<close> with exit status 0).
\<close>

definition exit_status :: "'a + 'a \<Rightarrow> nat" where
  "exit_status r = (case r of Inl _ \<Rightarrow> 1 | Inr _ \<Rightarrow> 0)"

definition final :: "'a + 'a \<Rightarrow> 'a" where
  "final r = (case r of Inl s \<Rightarrow> s | Inr s \<Rightarrow> s)"

definition all_dispatches :: "'w state \<Rightarrow> dispatch list" where
  "all_dispatches s = concat (finished s) @ cur s"

section \<open>The code shared by both programs\<close>

text \<open>\<open>usage()\<close>: the help text on the error stream, then \<open>os.Exit(1)\<close>.\<close>

definition usage :: "'w state \<Rightarrow> 'w state + 'w state" where
  "usage s = Inl (s\<lparr>stderr := stderr s @ [UsageText]\<rparr>)"

text \<open>The branch \<open>if *newPolynomial { ... return }\<close>.\<close>

definition new_polynomial_action :: "'w env \<Rightarrow> 'w state \<Rightarrow> 'w state + 'w state" where
  "new_polynomial_action e s =
     (let s1 = s\<lparr>calls := calls s @ [CallRandomPolynomial]\<rparr> in
      case random_polynomial e (world s1) of
        None \<Rightarrow> Inl (s1\<lparr>stderr := stderr s1 @ [UnableToGeneratePolynomial]\<rparr>)
      | Some p \<Rightarrow>
          (case stdout_write e (world s1) (fmt_uint64_line p) of
             None \<Rightarrow> Inr (s1\<lparr>stdout := stdout s1 @ fmt_uint64_line p\<rparr>)
           | Some n \<Rightarrow>
               Inl (s1\<lparr>stdout := stdout s1 @ take n (fmt_uint64_line p),
                      stderr := stderr s1 @ [UnableToPrintPolynomial]\<rparr>)))"

text \<open>The branch \<open>if *checkPolynomial { ... return }\<close>.\<close>

definition check_polynomial_action ::
  "'w env \<Rightarrow> flags \<Rightarrow> 'w state \<Rightarrow> 'w state + 'w state" where
  "check_polynomial_action e f s =
     (let s1 = s\<lparr>calls := calls s @ [CallIrreducible (polynomialInt f)]\<rparr> in
      if \<not> irreducible e (polynomialInt f)
      then Inl (s1\<lparr>stderr := stderr s1 @ [NotIrreducible]\<rparr>)
      else Inr s1)"

text \<open>
  \<open>exec.Command(cmdArgs[0])\<close> or \<open>exec.Command(cmdArgs[0], cmdArgs[1:]...)\<close>:
  the program name and its arguments. Only reached with a non-empty \<open>cmdArgs\<close>.
\<close>

definition mk_cmd :: "string list \<Rightarrow> string \<times> string list" where
  "mk_cmd args = (if length args = 1 then (args ! 0, []) else (args ! 0, tl args))"

text \<open>\<open>chunker.NewWithBoundaries\<close> and \<open>SetAverageBits\<close> for the selected profile.\<close>

definition chunk_source :: "'w env \<Rightarrow> flags \<Rightarrow> reader \<Rightarrow> bytes list \<times> src_end" where
  "chunk_source e f rd = chunker e (select_profile f) (polynomialInt f) rd"

section \<open>The single-level driver (cchunker)\<close>

text \<open>
  One pass of the loop body after \<open>Next\<close> returned a chunk: the subprocess writes
  straight to \<open>os.Stdout\<close>, whatever its exit status.
\<close>

definition run_passthrough ::
  "'w env \<Rightarrow> string list \<Rightarrow> bytes \<Rightarrow> 'w state \<Rightarrow> 'w state + 'w state" where
  "run_passthrough e args c s =
     (let ((ob, good), w') = run_cmd e (world s) (mk_cmd args) c;
          s1 = s\<lparr>world := w', stdout := stdout s @ ob,
                 cur := cur s @ [\<lparr>chunk = c, out = ob, ok = good\<rparr>]\<rparr>
      in if good then Inr s1
         else Inl (s1\<lparr>stderr := stderr s1 @ [ErrorRunningCommand]\<rparr>))"

fun single_loop ::
  "'w env \<Rightarrow> string list \<Rightarrow> bytes list \<Rightarrow> src_end \<Rightarrow> 'w state \<Rightarrow> 'w state + 'w state" where
  "single_loop e args [] AtEOF s = Inr s"
| "single_loop e args [] NextError s = Inl (s\<lparr>stderr := stderr s @ [ErrorNextChunk]\<rparr>)"
| "single_loop e args (c # cs) en s =
     (case run_passthrough e args c s of
        Inl s' \<Rightarrow> Inl s'
      | Inr s' \<Rightarrow> single_loop e args cs en s')"

definition single_level :: "'w env \<Rightarrow> flags \<Rightarrow> 'w state \<Rightarrow> 'w state + 'w state" where
  "single_level e f s =
     (let (cs, en) = chunk_source e f (input s) in single_loop e (cmdArgs f) cs en s)"

definition cchunker_main :: "'w env \<Rightarrow> flags \<Rightarrow> reader \<Rightarrow> 'w \<Rightarrow> 'w state + 'w state" where
  "cchunker_main e f stdin w =
     (let s0 = init_state stdin w in
      if newPolynomial f then new_polynomial_action e s0
      else if checkPolynomial f then check_polynomial_action e f s0
      else if length (cmdArgs f) = 0 then usage s0
      else single_level e f s0)"

section \<open>The reduction driver (multicchunker)\<close>

text \<open>
  One pass of the inner loop body after \<open>Next\<close> returned a chunk. The capture buffer
  is emptied, the subprocess appends its stdout to it, and on success the buffer is
  appended to the summary. \<open>bytes.Buffer.Write\<close> always returns a nil error, so the
  error branch after \<open>summaryData.Write\<close> is never taken.
\<close>

definition run_capture ::
  "'w env \<Rightarrow> string list \<Rightarrow> bytes \<Rightarrow> 'w state \<Rightarrow> 'w state + 'w state" where
  "run_capture e args c s =
     (let s1 = s\<lparr>summaryLine := []\<rparr>;
          ((ob, good), w') = run_cmd e (world s1) (mk_cmd args) c;
          s2 = s1\<lparr>world := w', summaryLine := summaryLine s1 @ ob,
                  cur := cur s1 @ [\<lparr>chunk = c, out = ob, ok = good\<rparr>]\<rparr>
      in if \<not> good then Inl (s2\<lparr>stderr := stderr s2 @ [ErrorRunningCommand]\<rparr>)
         else Inr (s2\<lparr>summaryData := summaryData s2 @ summaryLine s2,
                      nChunks := nChunks s2 + 1\<rparr>))"

fun chunk_loop ::
  "'w env \<Rightarrow> string list \<Rightarrow> bytes list \<Rightarrow> src_end \<Rightarrow> 'w state \<Rightarrow> 'w state + 'w state" where
  "chunk_loop e args [] AtEOF s = Inr s"
| "chunk_loop e args [] NextError s = Inl (s\<lparr>stderr := stderr s @ [ErrorNextChunk]\<rparr>)"
| "chunk_loop e args (c # cs) en s =
     (case run_capture e args c s of
        Inl s' \<Rightarrow> Inl s'
      | Inr s' \<Rightarrow> chunk_loop e args cs en s')"

text \<open>
  The body of the outer loop up to the end of the inner loop: the iteration line goes
  into the summary first (a write to a \<open>bytes.Buffer\<close>, which cannot fail), then the
  chunk source is built over \<open>input\<close>, the counter is set to 0 and the chunks are
  processed.
\<close>

definition level :: "'w env \<Rightarrow> flags \<Rightarrow> 'w state \<Rightarrow> 'w state + 'w state" where
  "level e f s =
     (let s1 = s\<lparr>summaryData := summaryData s @ fmt_int64_line (iteration s)\<rparr>;
          (cs, en) = chunk_source e f (input s1);
          s2 = s1\<lparr>nChunks := 0\<rparr>
      in chunk_loop e (cmdArgs f) cs en s2)"

text \<open>
  The three assignments after the termination test: the summary becomes the next input,
  a new empty buffer takes its place and the iteration is incremented.
\<close>

definition next_level :: "'w state \<Rightarrow> 'w state" where
  "next_level s =
     s\<lparr>input := Reader (summaryData s) False, summaryData := [],
       iteration := iteration s + 1,
       finished := finished s @ [cur s], cur := []\<rparr>"

text \<open>
  The outer \<open>for\<close> loop. It has no bound of its own: \<open>None\<close> is a run that never
  leaves the loop.
\<close>

partial_function (option) reduce ::
  "'w env \<Rightarrow> flags \<Rightarrow> 'w state \<Rightarrow> ('w state + 'w state) option" where
  "reduce e f s =
     (case level e f s of
        Inl s' \<Rightarrow> Some (Inl s')
      | Inr s' \<Rightarrow>
          if nChunks s' = 0 \<or> nChunks s' = 1 then Some (Inr s')
          else reduce e f (next_level s'))"

declare reduce.simps [code]

text \<open>\<open>os.Stdout.Write(summaryData.Bytes())\<close> after the loop.\<close>

definition write_final :: "'w env \<Rightarrow> 'w state \<Rightarrow> 'w state + 'w state" where
  "write_final e s =
     (case stdout_write e (world s) (summaryData s) of
        None \<Rightarrow> Inr (s\<lparr>stdout := stdout s @ summaryData s\<rparr>)
      | Some n \<Rightarrow>
          Inl (s\<lparr>stdout := stdout s @ take n (summaryData s),
                stderr := stderr s @ [ErrorWritingSummary]\<rparr>))"

definition reduction :: "'w env \<Rightarrow> flags \<Rightarrow> 'w state \<Rightarrow> ('w state + 'w state) option" where
  "reduction e f s =
     (case reduce e f s of
        None \<Rightarrow> None
      | Some (Inl s') \<Rightarrow> Some (Inl s')
      | Some (Inr s') \<Rightarrow> Some (write_final e s'))"

definition multicchunker_main ::
  "'w env \<Rightarrow> flags \<Rightarrow> reader \<Rightarrow> 'w \<Rightarrow> ('w state + 'w state) option" where
  "multicchunker_main e f stdin w =
     (let s0 = init_state stdin w in
      if newPolynomial f then Some (new_polynomial_action e s0)
      else if checkPolynomial f then Some (check_polynomial_action e f s0)
      else if length (cmdArgs f) = 0 then Some (usage s0)
      else reduction e f s0)"

text \<open>
  The states at which a level of a run starts: the first state, and the state after the
  three assignments whenever a level ends with a counter other than 0 and 1.
\<close>

inductive level_start :: "'w env \<Rightarrow> flags \<Rightarrow> 'w state \<Rightarrow> 'w state \<Rightarrow> bool"
  for e :: "'w env" and f :: flags and s0 :: "'w state" where
  first: "level_start e f s0 s0"
| later: "level_start e f s0 s \<Longrightarrow> level e f s = Inr s' \<Longrightarrow>
          \<not> (nChunks s' = 0 \<or> nChunks s' = 1) \<Longrightarrow> level_start e f s0 (next_level s')"

text \<open>
  The variables that the inner loop never assigns: the standard output, the iteration,
  the input, and the record of completed levels and library calls.
\<close>

definition untouched :: "'w state \<Rightarrow> 'w state \<Rightarrow> bool" where
  "untouched s s' =
     (stdout s' = stdout s \<and> iteration s' = iteration s \<and> input s' = input s \<and>
      finished s' = finished s \<and> calls s' = calls s)"

section \<open>A small concrete environment\<close>

text \<open>
  An environment on which the programs can be run by evaluation: a chunk source that
  cuts the stream into blocks of eight bytes, a processor that prints the first byte of
  its chunk as a line and fails on a chunk that starts with an exclamation mark, a world
  that counts the subprocesses, and a standard output that accepts every write.
\<close>

fun blocks8 :: "bytes \<Rightarrow> bytes list" where
  "blocks8 (a # b # c # d # e # f # g # h # rest) = [a, b, c, d, e, f, g, h] # blocks8 rest"
| "blocks8 [] = []"
| "blocks8 xs = [xs]"

definition demo_chunker :: "profile \<Rightarrow> 64 word \<Rightarrow> reader \<Rightarrow> bytes list \<times> src_end" where
  "demo_chunker p pol rd =
     (blocks8 (content rd), if read_error rd then NextError else AtEOF)"

definition demo_cmd :: "nat \<Rightarrow> string \<times> string list \<Rightarrow> bytes \<Rightarrow> (bytes \<times> bool) \<times> nat" where
  "demo_cmd w cmd c =
     (if c = [] \<or> hd c = CHR ''!'' then (([], False), Suc w)
      else (([hd c, newline], True), Suc w))"

definition demo_env :: "nat env" where
  "demo_env =
     \<lparr>chunker = demo_chunker, run_cmd = demo_cmd, stdout_write = (\<lambda>w b. None),
      random_polynomial = (\<lambda>w. Some default_polynomial),
      irreducible = (\<lambda>p. p = default_polynomial)\<rparr>"

definition demo_flags :: flags where
  "demo_flags =
     \<lparr>newPolynomial = False, checkPolynomial = False, smallChunks = False,
      largeChunks = False, polynomialInt = default_polynomial, cmdArgs = [''hash'']\<rparr>"

text \<open>
  A run of the reduction driver in this environment: sixteen bytes make two chunks at
  level 0, whose summary makes one chunk at level 1. The two states are those at the
  end of the inner loop of each level.
\<close>

definition demo_stdin :: reader where
  "demo_stdin = Reader ''aaaaaaaabbbbbbbb'' False"

definition demo_level0 :: "nat state" where
  "demo_level0 =
     \<lparr>world = 2, input = Reader ''aaaaaaaabbbbbbbb'' False, iteration = 0,
      summaryData = ''0\<newline>a\<newline>b\<newline>'', summaryLine = ''b\<newline>'', nChunks = 2,
      stdout = [], stderr = [],
      cur = [\<lparr>chunk = ''aaaaaaaa'', out = ''a\<newline>'', ok = True\<rparr>,
             \<lparr>chunk = ''bbbbbbbb'', out = ''b\<newline>'', ok = True\<rparr>],
      finished = [], calls = []\<rparr>"

definition demo_level1 :: "nat state" where
  "demo_level1 =
     \<lparr>world = 3, input = Reader ''0\<newline>a\<newline>b\<newline>'' False, iteration = 1,
      summaryData = ''1\<newline>0\<newline>'', summaryLine = ''0\<newline>'', nChunks = 1,
      stdout = [], stderr = [],
      cur = [\<lparr>chunk = ''0\<newline>a\<newline>b\<newline>'', out = ''0\<newline>'', ok = True\<rparr>],
      finished = [[\<lparr>chunk = ''aaaaaaaa'', out = ''a\<newline>'', ok = True\<rparr>,
                   \<lparr>chunk = ''bbbbbbbb'', out = ''b\<newline>'', ok = True\<rparr>]],
      calls = []\<rparr>"

text \<open>
  A run in which the processor fails on the second of three chunks, and the state in
  which the reduction driver then exits.
\<close>

definition demo_failing_stdin :: reader where
  "demo_failing_stdin = Reader ''aaaaaaaa!bbbbbbbcccccccc'' False"

definition demo_aborted :: "nat state" where
  "demo_aborted =
     \<lparr>world = 2, input = Reader ''aaaaaaaa!bbbbbbbcccccccc'' False, iteration = 0,
      summaryData = ''0\<newline>a\<newline>'', summaryLine = [], nChunks = 1,
      stdout = [], stderr = [ErrorRunningCommand],
      cur = [\<lparr>chunk = ''aaaaaaaa'', out = ''a\<newline>'', ok = True\<rparr>,
             \<lparr>chunk = ''!bbbbbbb'', out = [], ok = False\<rparr>],
      finished = [], calls = []\<rparr>"

section \<open>Lines and decimal numbers\<close>

lemma digit_char_mem: "d < 10 \<Longrightarrow> digit_char d \<in> set ''0123456789''"
  unfolding digit_char_def by (rule nth_mem) simp

lemma digit_char_not_newline: "d < 10 \<Longrightarrow> digit_char d \<noteq> newline"
  using digit_char_mem [of d] by (auto simp add: newline_def)

lemma newline_notin_dec_nat: "newline \<notin> set (dec_nat n)"
proof (induction n rule: dec_nat.induct)
  case (1 n)
  show ?case
  proof (cases "n < 10")
    case True
    then have "digit_char n \<noteq> newline" by (rule digit_char_not_newline)
    with True show ?thesis by (subst dec_nat.simps) auto
  next
    case False
    have "digit_char (n mod 10) \<noteq> newline" by (rule digit_char_not_newline) simp
    with False 1 show ?thesis by (subst dec_nat.simps) auto
  qed
qed

lemma newline_notin_dec_int: "newline \<notin> set (dec_int i)"
  by (simp add: dec_int_def newline_notin_dec_nat) (simp add: newline_def)

lemma lines_acc_line:
  "newline \<notin> set l \<Longrightarrow> lines_acc acc (l @ newline # t) = (rev acc @ l) # lines_acc [] t"
  by (induction l arbitrary: acc) auto

lemma lines_of_line: "newline \<notin> set l \<Longrightarrow> lines_of (l @ newline # t) = l # lines_of t"
  using lines_acc_line [of l "[]" t] by (simp add: lines_of_def)

lemma one_line_iff: "one_line s \<longleftrightarrow> (\<exists>l. s = l @ [newline] \<and> newline \<notin> set l)"
proof
  assume a: "one_line s"
  then have "s = butlast s @ [newline]" unfolding one_line_def by (metis append_butlast_last_id)
  moreover from a have "newline \<notin> set (butlast s)" by (simp add: one_line_def)
  ultimately show "\<exists>l. s = l @ [newline] \<and> newline \<notin> set l" by blast
next
  assume "\<exists>l. s = l @ [newline] \<and> newline \<notin> set l"
  then show "one_line s" by (auto simp add: one_line_def)
qed

lemma lines_of_one_line: "one_line s \<Longrightarrow> lines_of (s @ t) = butlast s # lines_of t"
  by (auto simp add: one_line_iff lines_of_line)

lemma lines_of_Nil: "lines_of [] = []" by (simp add: lines_of_def)

lemma lines_of_concat:
  "(\<And>s. s \<in> set ss \<Longrightarrow> one_line s) \<Longrightarrow> lines_of (concat ss) = map butlast ss"
  by (induction ss) (simp_all add: lines_of_Nil lines_of_one_line)

lemma lines_of_fmt: "lines_of (fmt_int64_line i @ t) = dec_int (sint i) # lines_of t"
  by (simp add: fmt_int64_line_def lines_of_line newline_notin_dec_int)

section \<open>The inner loop of the reduction driver\<close>

lemma untouched_refl: "untouched s s" by (simp add: untouched_def)
lemma untouched_trans: "untouched s s' \<Longrightarrow> untouched s' s'' \<Longrightarrow> untouched s s''"
  by (simp add: untouched_def)

lemma run_capture_Inr:
  assumes "run_capture e args c s = Inr s'"
  shows "\<exists>d. chunk d = c \<and> out d = fst (fst (run_cmd e (world s) (mk_cmd args) c)) \<and> ok d \<and>
             cur s' = cur s @ [d] \<and> summaryData s' = summaryData s @ out d \<and>
             summaryLine s' = out d \<and>
             nChunks s' = nChunks s + 1 \<and> stderr s' = stderr s \<and> untouched s s'"
  using assms
  by (auto simp add: run_capture_def untouched_def Let_def split: prod.splits if_splits)

lemma run_capture_Inl:
  assumes "run_capture e args c s = Inl s'"
  shows "\<exists>d. chunk d = c \<and> out d = fst (fst (run_cmd e (world s) (mk_cmd args) c)) \<and> \<not> ok d \<and>
             cur s' = cur s @ [d] \<and> summaryData s' = summaryData s \<and>
             stderr s' = stderr s @ [ErrorRunningCommand] \<and> untouched s s'"
  using assms
  by (auto simp add: run_capture_def untouched_def Let_def split: prod.splits if_splits)

lemma chunk_loop_Inr:
  "chunk_loop e args cs en s = Inr s' \<Longrightarrow>
   en = AtEOF \<and>
   (\<exists>ds. cur s' = cur s @ ds \<and> map chunk ds = cs \<and> (\<forall>d\<in>set ds. ok d) \<and>
         summaryData s' = summaryData s @ concat (map out ds) \<and>
         nChunks s' = nChunks s + of_nat (length cs) \<and> stderr s' = stderr s \<and>
         untouched s s')"
proof (induction cs arbitrary: s)
  case Nil
  then show ?case by (cases en) (simp_all add: untouched_refl)
next
  case (Cons c cs)
  from Cons.prems obtain s1 where
    r: "run_capture e args c s = Inr s1" and l: "chunk_loop e args cs en s1 = Inr s'"
    by (auto split: sum.splits)
  from run_capture_Inr [OF r] obtain d where
    d: "chunk d = c" "ok d" "cur s1 = cur s @ [d]" "summaryData s1 = summaryData s @ out d"
       "nChunks s1 = nChunks s + 1" "stderr s1 = stderr s" "untouched s s1"
    by blast
  from Cons.IH [OF l] obtain ds where
    ds: "en = AtEOF" "cur s' = cur s1 @ ds" "map chunk ds = cs" "\<forall>d\<in>set ds. ok d"
        "summaryData s' = summaryData s1 @ concat (map out ds)"
        "nChunks s' = nChunks s1 + of_nat (length cs)" "stderr s' = stderr s1" "untouched s1 s'"
    by auto
  have "cur s' = cur s @ (d # ds)" using d ds by simp
  moreover have "map chunk (d # ds) = c # cs" using d ds by simp
  moreover have "\<forall>x\<in>set (d # ds). ok x" using d ds by simp
  moreover have "summaryData s' = summaryData s @ concat (map out (d # ds))" using d ds by simp
  moreover have "nChunks s' = nChunks s + of_nat (length (c # cs))" using d ds by simp
  moreover have "stderr s' = stderr s" using d ds by simp
  moreover have "untouched s s'" using d ds untouched_trans by blast
  ultimately have "\<exists>ds. cur s' = cur s @ ds \<and> map chunk ds = c # cs \<and> (\<forall>d\<in>set ds. ok d) \<and>
         summaryData s' = summaryData s @ concat (map out ds) \<and>
         nChunks s' = nChunks s + of_nat (length (c # cs)) \<and> stderr s' = stderr s \<and>
         untouched s s'"
    by (intro exI [of _ "d # ds"] conjI)
  with ds(1) show ?case by (intro conjI)
qed

lemma chunk_loop_Inl:
  "chunk_loop e args cs en s = Inl s' \<Longrightarrow>
   \<exists>ds. cur s' = cur s @ ds \<and> map chunk ds = take (length ds) cs \<and>
        (\<forall>d\<in>set (butlast ds). ok d) \<and>
        summaryData s' = summaryData s @ concat (map out (filter ok ds)) \<and>
        untouched s s' \<and>
        ((ds \<noteq> [] \<and> \<not> ok (last ds) \<and> stderr s' = stderr s @ [ErrorRunningCommand]) \<or>
         (en = NextError \<and> length ds = length cs \<and> (\<forall>d\<in>set ds. ok d) \<and>
          stderr s' = stderr s @ [ErrorNextChunk]))"
proof (induction cs arbitrary: s)
  case Nil
  then have "en = NextError" "s' = s\<lparr>stderr := stderr s @ [ErrorNextChunk]\<rparr>"
    by (cases en; simp)+
  then show ?case by (intro exI [of _ "[]"]) (simp add: untouched_def)
next
  case (Cons c cs)
  show ?case
  proof (cases "run_capture e args c s")
    case (Inl s1)
    with Cons.prems have eq: "s1 = s'" by simp
    from run_capture_Inl [OF Inl] obtain d where
      d: "chunk d = c" "\<not> ok d" "cur s1 = cur s @ [d]" "summaryData s1 = summaryData s"
         "stderr s1 = stderr s @ [ErrorRunningCommand]" "untouched s s1"
      by blast
    show ?thesis using d unfolding eq [symmetric] by (intro exI [of _ "[d]"]) simp
  next
    case (Inr s1)
    with Cons.prems have l: "chunk_loop e args cs en s1 = Inl s'" by simp
    from run_capture_Inr [OF Inr] obtain d where
      d: "chunk d = c" "ok d" "cur s1 = cur s @ [d]" "summaryData s1 = summaryData s @ out d"
         "stderr s1 = stderr s" "untouched s s1"
      by blast
    from Cons.IH [OF l] obtain ds where
      ds: "cur s' = cur s1 @ ds" "map chunk ds = take (length ds) cs"
          "\<forall>d\<in>set (butlast ds). ok d"
          "summaryData s' = summaryData s1 @ concat (map out (filter ok ds))"
          "untouched s1 s'"
          "(ds \<noteq> [] \<and> \<not> ok (last ds) \<and> stderr s' = stderr s1 @ [ErrorRunningCommand]) \<or>
           (en = NextError \<and> length ds = length cs \<and> (\<forall>d\<in>set ds. ok d) \<and>
            stderr s' = stderr s1 @ [ErrorNextChunk])"
      by auto
    have 1: "cur s' = cur s @ (d # ds)" using d ds by simp
    have 2: "map chunk (d # ds) = take (length (d # ds)) (c # cs)" using d ds by simp
    have 3: "\<forall>x\<in>set (butlast (d # ds)). ok x" using d ds by simp
    have 4: "summaryData s' = summaryData s @ concat (map out (filter ok (d # ds)))"
      using d ds by simp
    have 5: "untouched s s'" using d ds untouched_trans by blast
    have 6: "(d # ds \<noteq> [] \<and> \<not> ok (last (d # ds)) \<and> stderr s' = stderr s @ [ErrorRunningCommand]) \<or>
         (en = NextError \<and> length (d # ds) = length (c # cs) \<and> (\<forall>x\<in>set (d # ds). ok x) \<and>
          stderr s' = stderr s @ [ErrorNextChunk])"
      using d ds(6) by auto
    from 1 2 3 4 5 6 show ?thesis by (intro exI [of _ "d # ds"] conjI)
  qed
qed

section \<open>One level and the outer loop\<close>

lemma level_Inr:
  assumes "level e f s = Inr s'"
  shows "\<exists>ds. chunk_source e f (input s) = (map chunk ds, AtEOF) \<and>
              cur s' = cur s @ ds \<and> (\<forall>d\<in>set ds. ok d) \<and>
              summaryData s' = summaryData s @ fmt_int64_line (iteration s) @ concat (map out ds) \<and>
              nChunks s' = of_nat (length ds) \<and> stderr s' = stderr s \<and> untouched s s'"
proof -
  obtain cs en where src: "chunk_source e f (input s) = (cs, en)" by (cases "chunk_source e f (input s)")
  let ?s2 = "s\<lparr>summaryData := summaryData s @ fmt_int64_line (iteration s), nChunks := 0\<rparr>"
  from assms src have l: "chunk_loop e (cmdArgs f) cs en ?s2 = Inr s'"
    by (simp add: level_def Let_def)
  from chunk_loop_Inr [OF l] obtain ds where
    ds: "en = AtEOF" "cur s' = cur ?s2 @ ds" "map chunk ds = cs" "\<forall>d\<in>set ds. ok d"
        "summaryData s' = summaryData ?s2 @ concat (map out ds)"
        "nChunks s' = nChunks ?s2 + of_nat (length cs)" "stderr s' = stderr ?s2" "untouched ?s2 s'"
    by blast
  have "length cs = length ds" using ds(3) by auto
  with src ds show ?thesis
    by (intro exI [of _ ds]) (simp add: untouched_def)
qed

lemma level_Inl:
  assumes "level e f s = Inl s'"
  shows "\<exists>ds. cur s' = cur s @ ds \<and>
              map chunk ds = take (length ds) (fst (chunk_source e f (input s))) \<and>
              (\<forall>d\<in>set (butlast ds). ok d) \<and>
              summaryData s' =
                summaryData s @ fmt_int64_line (iteration s) @ concat (map out (filter ok ds)) \<and>
              untouched s s' \<and>
              ((ds \<noteq> [] \<and> \<not> ok (last ds) \<and> stderr s' = stderr s @ [ErrorRunningCommand]) \<or>
               (snd (chunk_source e f (input s)) = NextError \<and> (\<forall>d\<in>set ds. ok d) \<and>
                stderr s' = stderr s @ [ErrorNextChunk]))"
proof -
  obtain cs en where src: "chunk_source e f (input s) = (cs, en)" by (cases "chunk_source e f (input s)")
  let ?s2 = "s\<lparr>summaryData := summaryData s @ fmt_int64_line (iteration s), nChunks := 0\<rparr>"
  from assms src have l: "chunk_loop e (cmdArgs f) cs en ?s2 = Inl s'"
    by (simp add: level_def Let_def)
  from chunk_loop_Inl [OF l] obtain ds where
    ds: "cur s' = cur ?s2 @ ds" "map chunk ds = take (length ds) cs"
        "\<forall>d\<in>set (butlast ds). ok d"
        "summaryData s' = summaryData ?s2 @ concat (map out (filter ok ds))"
        "untouched ?s2 s'"
        "(ds \<noteq> [] \<and> \<not> ok (last ds) \<and> stderr s' = stderr ?s2 @ [ErrorRunningCommand]) \<or>
         (en = NextError \<and> length ds = length cs \<and> (\<forall>d\<in>set ds. ok d) \<and>
          stderr s' = stderr ?s2 @ [ErrorNextChunk])"
    by blast
  from ds(6) src
  have "(ds \<noteq> [] \<and> \<not> ok (last ds) \<and> stderr s' = stderr s @ [ErrorRunningCommand]) \<or>
        (snd (chunk_source e f (input s)) = NextError \<and> (\<forall>d\<in>set ds. ok d) \<and>
         stderr s' = stderr s @ [ErrorNextChunk])" by auto
  with src ds(1-5) show ?thesis
    by (intro exI [of _ ds]) (simp add: untouched_def)
qed

text \<open>What holds at the start of every level of a run.\<close>

lemma level_start_invariant:
  assumes "level_start e f s0 s" and "summaryData s0 = []" and "cur s0 = []"
    and "\<forall>d\<in>set (concat (finished s0)). ok d"
  shows "summaryData s = [] \<and> cur s = [] \<and> stdout s = stdout s0 \<and> calls s = calls s0 \<and>
         stderr s = stderr s0 \<and> (\<forall>d\<in>set (concat (finished s)). ok d)"
  using assms
proof (induction rule: level_start.induct)
  case first
  then show ?case by simp
next
  case (later s s')
  then have ih: "summaryData s = []" "cur s = []" "stdout s = stdout s0" "calls s = calls s0"
    "stderr s = stderr s0" "\<forall>d\<in>set (concat (finished s)). ok d" by simp_all
  from level_Inr [OF later.hyps(2)] obtain ds where
    ds: "cur s' = cur s @ ds" "\<forall>d\<in>set ds. ok d" "stderr s' = stderr s" "untouched s s'"
    by blast
  with ih show ?case by (auto simp add: next_level_def untouched_def)
qed

lemma reduce_level_start: "level_start e f s0 s \<Longrightarrow> reduce e f s0 = reduce e f s"
proof (induction rule: level_start.induct)
  case first
  show ?case by simp
next
  case (later s s')
  have "reduce e f s = reduce e f (next_level s')"
    using later.hyps(2,3) by (subst reduce.simps) simp
  with later.IH show ?case by simp
qed

lemma level_start_trans:
  "level_start e f s1 s2 \<Longrightarrow> level_start e f s0 s1 \<Longrightarrow> level_start e f s0 s2"
  by (induction rule: level_start.induct) (auto intro: level_start.intros)

lemma reduce_Some:
  "reduce e f s0 = Some r \<Longrightarrow>
   \<exists>s. level_start e f s0 s \<and>
       ((\<exists>s'. level e f s = Inl s' \<and> r = Inl s') \<or>
        (\<exists>s'. level e f s = Inr s' \<and> (nChunks s' = 0 \<or> nChunks s' = 1) \<and> r = Inr s'))"
proof (induct e f s0 r rule: reduce.raw_induct [rotated 1, consumes 1])
  case (1 rec e f s0 r)
  show ?case
  proof (cases "level e f s0")
    case (Inl s')
    with 1(2) have "r = Inl s'" by simp
    with Inl show ?thesis by (intro exI [of _ s0]) (simp add: level_start.first)
  next
    case (Inr s')
    show ?thesis
    proof (cases "nChunks s' = 0 \<or> nChunks s' = 1")
      case True
      with Inr 1(2) have "r = Inr s'" by simp
      with Inr True show ?thesis by (intro exI [of _ s0]) (simp add: level_start.first)
    next
      case False
      with Inr 1(2) have "rec e f (next_level s') = Some r" by simp
      from 1(1) [OF this] obtain s where
        s: "level_start e f (next_level s') s"
           "(\<exists>s'. level e f s = Inl s' \<and> r = Inl s') \<or>
            (\<exists>s'. level e f s = Inr s' \<and> (nChunks s' = 0 \<or> nChunks s' = 1) \<and> r = Inr s')"
        by blast
      have "level_start e f s0 (next_level s')"
        using level_start.later [OF level_start.first Inr False] .
      from level_start_trans [OF s(1) this] s(2) show ?thesis by blast
    qed
  qed
qed

section \<open>Auxiliary facts\<close>

lemma sint_ge2: "2 \<le> sint (w :: 64 word) \<Longrightarrow> w \<noteq> 0 \<and> w \<noteq> 1"
  by auto

lemma filter_ok_butlast:
  "ds \<noteq> [] \<Longrightarrow> \<forall>d\<in>set (butlast ds). ok d \<Longrightarrow> \<not> ok (last ds) \<Longrightarrow> filter ok ds = butlast ds"
  by (induction ds) auto

lemma take_short: "length cs \<le> 1 \<Longrightarrow> ds \<noteq> [] \<Longrightarrow> take (length ds) cs = cs"
  by (cases ds) auto

lemma write_final_keeps:
  "cur (final (write_final e s)) = cur s \<and> finished (final (write_final e s)) = finished s"
  by (simp add: write_final_def final_def split: option.splits)

lemma fmt_default_polynomial: "fmt_uint64_line default_polynomial = ''17349423945073011\<newline>''"
  by (simp add: fmt_uint64_line_def default_polynomial_def dec_nat.simps digit_char_def newline_def)

section \<open>The loop of the single-level driver\<close>

lemma run_passthrough_cases:
  "\<exists>d. chunk d = c \<and> cur (final (run_passthrough e args c s)) = cur s @ [d] \<and>
       stdout (final (run_passthrough e args c s)) = stdout s @ out d \<and>
       (case run_passthrough e args c s of Inl _ \<Rightarrow> \<not> ok d | Inr _ \<Rightarrow> ok d)"
  by (auto simp add: run_passthrough_def final_def Let_def split: prod.splits)

lemma single_loop_trace:
  "\<exists>ds. cur (final (single_loop e args cs en s)) = cur s @ ds \<and>
        map chunk ds = take (length ds) cs \<and>
        stdout (final (single_loop e args cs en s)) = stdout s @ concat (map out ds) \<and>
        (\<forall>d\<in>set (butlast ds). ok d) \<and>
        ((\<forall>d\<in>set ds. ok d) \<longrightarrow> length ds = length cs) \<and>
        (exit_status (single_loop e args cs en s) = 0 \<longleftrightarrow> en = AtEOF \<and> (\<forall>d\<in>set ds. ok d))"
proof (induction cs arbitrary: s)
  case Nil
  show ?case by (cases en) (simp_all add: final_def exit_status_def)
next
  case (Cons c cs)
  from run_passthrough_cases [of c e args s] obtain d where
    d: "chunk d = c" "cur (final (run_passthrough e args c s)) = cur s @ [d]"
       "stdout (final (run_passthrough e args c s)) = stdout s @ out d"
       "case run_passthrough e args c s of Inl _ \<Rightarrow> \<not> ok d | Inr _ \<Rightarrow> ok d"
    by blast
  show ?case
  proof (cases "run_passthrough e args c s")
    case (Inl s1)
    with d show ?thesis
      by (intro exI [of _ "[d]"]) (simp add: final_def exit_status_def)
  next
    case (Inr s1)
    with d have d': "ok d" "cur s1 = cur s @ [d]" "stdout s1 = stdout s @ out d"
      by (simp_all add: final_def)
    from Cons.IH [of s1] obtain ds where
      ds: "cur (final (single_loop e args cs en s1)) = cur s1 @ ds"
        "map chunk ds = take (length ds) cs"
        "stdout (final (single_loop e args cs en s1)) = stdout s1 @ concat (map out ds)"
        "\<forall>d\<in>set (butlast ds). ok d"
        "(\<forall>d\<in>set ds. ok d) \<longrightarrow> length ds = length cs"
        "exit_status (single_loop e args cs en s1) = 0 \<longleftrightarrow> en = AtEOF \<and> (\<forall>d\<in>set ds. ok d)"
      by (elim exE conjE)
    have eq: "single_loop e args (c # cs) en s = single_loop e args cs en s1"
      using Inr by simp
    show ?thesis unfolding eq using d(1) d' ds
      by (intro exI [of _ "d # ds"]) simp
  qed
qed

section \<open>The runs of the concrete environment\<close>

lemmas demo_defs = demo_env_def demo_flags_def demo_chunker_def demo_cmd_def
  level_def chunk_source_def select_profile_def run_capture_def run_passthrough_def
  mk_cmd_def init_state_def fmt_int64_line_def dec_int_def dec_nat.simps digit_char_def
  newline_def Let_def

lemma demo_level0_run: "level demo_env demo_flags (init_state demo_stdin 0) = Inr demo_level0"
  by (simp add: demo_stdin_def demo_level0_def demo_defs)

lemma demo_level1_run: "level demo_env demo_flags (next_level demo_level0) = Inr demo_level1"
  by (simp add: demo_level0_def demo_level1_def next_level_def demo_defs)

lemma demo_abort_run:
  "level demo_env demo_flags (init_state demo_failing_stdin 0) = Inl demo_aborted"
  by (simp add: demo_failing_stdin_def demo_aborted_def demo_defs)

section \<open>Claims about the reduction driver\<close>

text \<open>
  Claim C1. When the chunk loop of a level has run to its end: if the counter is 0 or 1
  the outer loop ends and the current summary buffer is what is written to the standard
  output; if the counter is 2 or more, the next level reads the current summary buffer,
  the iteration grows by exactly 1 and the next summary buffer starts empty.
\<close>

theorem level_end_decision:
  assumes "level e f s = Inr s'"
  shows "(nChunks s' = 0 \<or> nChunks s' = 1 \<longrightarrow>
            reduce e f s = Some (Inr s') \<and> reduction e f s = Some (write_final e s') \<and>
            (stdout_write e (world s') (summaryData s') = None \<longrightarrow>
               write_final e s' = Inr (s'\<lparr>stdout := stdout s' @ summaryData s'\<rparr>))) \<and>
         (2 \<le> sint (nChunks s') \<longrightarrow>
            reduce e f s = reduce e f (next_level s') \<and>
            reduction e f s = reduction e f (next_level s') \<and>
            input (next_level s') = Reader (summaryData s') False \<and>
            iteration (next_level s') = iteration s + 1 \<and>
            summaryData (next_level s') = [])"
proof (intro conjI impI)
  assume t: "nChunks s' = 0 \<or> nChunks s' = 1"
  with assms show r: "reduce e f s = Some (Inr s')" by (subst reduce.simps) simp
  then show "reduction e f s = Some (write_final e s')" by (simp add: reduction_def)
  assume "stdout_write e (world s') (summaryData s') = None"
  then show "write_final e s' = Inr (s'\<lparr>stdout := stdout s' @ summaryData s'\<rparr>)"
    by (simp add: write_final_def)
next
  assume "2 \<le> sint (nChunks s')"
  then have n: "\<not> (nChunks s' = 0 \<or> nChunks s' = 1)" using sint_ge2 by blast
  with assms show r: "reduce e f s = reduce e f (next_level s')" by (subst reduce.simps) simp
  then show "reduction e f s = reduction e f (next_level s')" by (simp add: reduction_def)
  show "input (next_level s') = Reader (summaryData s') False" by (simp add: next_level_def)
  from level_Inr [OF assms] have "iteration s' = iteration s" by (auto simp add: untouched_def)
  then show "iteration (next_level s') = iteration s + 1" by (simp add: next_level_def)
  show "summaryData (next_level s') = []" by (simp add: next_level_def)
qed

theorem level_end_decision_witness:
  "level demo_env demo_flags (init_state demo_stdin 0) = Inr demo_level0 \<and>
   2 \<le> sint (nChunks demo_level0) \<and>
   input (next_level demo_level0) = Reader ''0\<newline>a\<newline>b\<newline>'' False \<and>
   iteration (next_level demo_level0) = 1 \<and> summaryData (next_level demo_level0) = [] \<and>
   level demo_env demo_flags (next_level demo_level0) = Inr demo_level1 \<and>
   nChunks demo_level1 = 1 \<and>
   reduction demo_env demo_flags (init_state demo_stdin 0) =
     Some (Inr (demo_level1\<lparr>stdout := ''1\<newline>0\<newline>''\<rparr>))"
proof -
  let ?s0 = "init_state demo_stdin (0::nat)"
  have n1: "2 \<le> sint (nChunks demo_level0)" by (simp add: demo_level0_def)
  have n2: "nChunks demo_level1 = 1" by (simp add: demo_level1_def)
  have w: "stdout_write demo_env (world demo_level1) (summaryData demo_level1) = None"
    by (simp add: demo_env_def)
  from level_end_decision [OF demo_level0_run] n1
  have a: "reduction demo_env demo_flags ?s0 = reduction demo_env demo_flags (next_level demo_level0)"
    and b: "input (next_level demo_level0) = Reader (summaryData demo_level0) False"
      "iteration (next_level demo_level0) = iteration ?s0 + 1"
      "summaryData (next_level demo_level0) = []"
    by blast+
  from level_end_decision [OF demo_level1_run] n2 w
  have c: "reduction demo_env demo_flags (next_level demo_level0) =
             Some (write_final demo_env demo_level1)"
    and d: "write_final demo_env demo_level1 =
             Inr (demo_level1\<lparr>stdout := stdout demo_level1 @ summaryData demo_level1\<rparr>)"
    by blast+
  have "reduction demo_env demo_flags ?s0 = Some (Inr (demo_level1\<lparr>stdout := ''1\<newline>0\<newline>''\<rparr>))"
    using a c d by (simp add: demo_level1_def)
  moreover have "input (next_level demo_level0) = Reader ''0\<newline>a\<newline>b\<newline>'' False"
    using b(1) by (simp add: demo_level0_def)
  moreover have "iteration (next_level demo_level0) = 1" using b(2) by (simp add: init_state_def)
  ultimately show ?thesis using demo_level0_run demo_level1_run n1 n2 b(3) by blast
qed

text \<open>
  Claim C2. At every level of a run the summary starts with the line of the iteration
  index, written before any chunk output and also when the level exits early; after a
  completed level it is that line followed by the captured outputs in chunk order.
  When every captured output is exactly one terminated line, the lines of the summary
  are the iteration index and then one line per chunk, in order: \<open>1 + chunkCount\<close>
  lines.
\<close>

theorem summary_is_iteration_line_then_outputs:
  assumes "level_start e f (init_state stdin w) s"
  shows "(\<forall>s'. level e f s = Inl s' \<or> level e f s = Inr s' \<longrightarrow>
            (\<exists>rest. summaryData s' = fmt_int64_line (iteration s) @ rest)) \<and>
         (\<forall>s'. level e f s = Inr s' \<longrightarrow>
            map chunk (cur s') = fst (chunk_source e f (input s)) \<and>
            summaryData s' = fmt_int64_line (iteration s) @ concat (map out (cur s')) \<and>
            ((\<forall>d\<in>set (cur s'). one_line (out d)) \<longrightarrow>
               lines_of (summaryData s') =
                 dec_int (sint (iteration s)) # map (\<lambda>d. butlast (out d)) (cur s') \<and>
               length (lines_of (summaryData s')) =
                 1 + length (fst (chunk_source e f (input s)))))"
proof -
  have inv: "summaryData s = []" "cur s = []"
    using level_start_invariant [OF assms] by (simp_all add: init_state_def)
  have first: "\<exists>rest. summaryData s' = fmt_int64_line (iteration s) @ rest"
    if "level e f s = Inl s' \<or> level e f s = Inr s'" for s'
    using that
  proof
    assume "level e f s = Inl s'"
    from level_Inl [OF this] inv show ?thesis by auto
  next
    assume "level e f s = Inr s'"
    from level_Inr [OF this] inv show ?thesis by auto
  qed
  have second: "map chunk (cur s') = fst (chunk_source e f (input s)) \<and>
            summaryData s' = fmt_int64_line (iteration s) @ concat (map out (cur s')) \<and>
            ((\<forall>d\<in>set (cur s'). one_line (out d)) \<longrightarrow>
               lines_of (summaryData s') =
                 dec_int (sint (iteration s)) # map (\<lambda>d. butlast (out d)) (cur s') \<and>
               length (lines_of (summaryData s')) =
                 1 + length (fst (chunk_source e f (input s))))"
    if l: "level e f s = Inr s'" for s'
  proof -
    from level_Inr [OF l] inv obtain ds where
      ds: "chunk_source e f (input s) = (map chunk ds, AtEOF)" "cur s' = ds"
          "summaryData s' = fmt_int64_line (iteration s) @ concat (map out ds)"
      by auto
    have a: "map chunk (cur s') = fst (chunk_source e f (input s))" using ds by simp
    have b: "summaryData s' = fmt_int64_line (iteration s) @ concat (map out (cur s'))"
      using ds by simp
    have c: "lines_of (summaryData s') =
                 dec_int (sint (iteration s)) # map (\<lambda>d. butlast (out d)) (cur s') \<and>
             length (lines_of (summaryData s')) = 1 + length (fst (chunk_source e f (input s)))"
      if one: "\<forall>d\<in>set (cur s'). one_line (out d)"
    proof -
      have "lines_of (concat (map out (cur s'))) = map butlast (map out (cur s'))"
        by (rule lines_of_concat) (use one in auto)
      then have "lines_of (summaryData s') =
                 dec_int (sint (iteration s)) # map (\<lambda>d. butlast (out d)) (cur s')"
        using b by (simp add: lines_of_fmt comp_def)
      moreover have "length (cur s') = length (fst (chunk_source e f (input s)))"
        using a by (metis length_map)
      ultimately show ?thesis by simp
    qed
    from a b c show ?thesis by blast
  qed
  from first second show ?thesis by blast
qed

theorem summary_is_iteration_line_then_outputs_witness:
  "level_start demo_env demo_flags (init_state demo_stdin 0) (init_state demo_stdin 0) \<and>
   level demo_env demo_flags (init_state demo_stdin 0) = Inr demo_level0 \<and>
   map chunk (cur demo_level0) = [''aaaaaaaa'', ''bbbbbbbb''] \<and>
   summaryData demo_level0 = ''0\<newline>a\<newline>b\<newline>'' \<and>
   map (\<lambda>d. one_line (out d)) (cur demo_level0) = [True, True] \<and>
   lines_of (summaryData demo_level0) = [''0'', ''a'', ''b''] \<and>
   length (lines_of (summaryData demo_level0)) = 1 + 2"
proof -
  let ?s0 = "init_state demo_stdin (0::nat)"
  have st: "level_start demo_env demo_flags ?s0 ?s0" by (rule level_start.first)
  have one: "\<forall>d\<in>set (cur demo_level0). one_line (out d)"
    by (simp add: demo_level0_def one_line_def newline_def)
  from summary_is_iteration_line_then_outputs [OF st] demo_level0_run one
  have a: "map chunk (cur demo_level0) = fst (chunk_source demo_env demo_flags (input ?s0))"
    and b: "lines_of (summaryData demo_level0) =
              dec_int (sint (iteration ?s0)) # map (\<lambda>d. butlast (out d)) (cur demo_level0)"
    and c: "length (lines_of (summaryData demo_level0)) =
              1 + length (fst (chunk_source demo_env demo_flags (input ?s0)))"
    by blast+
  have a': "map chunk (cur demo_level0) = [''aaaaaaaa'', ''bbbbbbbb'']"
    using a by (simp add: demo_stdin_def demo_defs)
  have b': "lines_of (summaryData demo_level0) = [''0'', ''a'', ''b'']"
    using b by (simp add: demo_level0_def init_state_def dec_int_def dec_nat.simps digit_char_def)
  have c': "length (lines_of (summaryData demo_level0)) = 1 + 2"
    using c by (simp add: demo_stdin_def demo_defs)
  have d: "summaryData demo_level0 = ''0\<newline>a\<newline>b\<newline>''" by (simp add: demo_level0_def)
  have one': "map (\<lambda>d. one_line (out d)) (cur demo_level0) = [True, True]"
    by (simp add: demo_level0_def one_line_def newline_def)
  from st demo_level0_run a' b' c' d one' show ?thesis by blast
qed

text \<open>
  Claim C9. The capture buffer is emptied before every dispatch: whatever it held
  before (from an earlier chunk of this or of an earlier level), the bytes appended to
  the summary for a chunk are exactly the bytes its subprocess wrote to its stdout.
\<close>

theorem capture_buffer_is_reset:
  assumes "run_capture e args c s = Inr s'"
  shows "summaryData s' = summaryData s @ fst (fst (run_cmd e (world s) (mk_cmd args) c)) \<and>
         summaryLine s' = fst (fst (run_cmd e (world s) (mk_cmd args) c)) \<and>
         run_capture e args c (s\<lparr>summaryLine := residue\<rparr>) = Inr s'"
  using assms
  by (auto simp add: run_capture_def Let_def split: prod.splits if_splits)

theorem capture_buffer_is_reset_witness:
  "summaryLine demo_level0 = ''b\<newline>'' \<and>
   (\<exists>s'. run_capture demo_env [''hash''] ''cccc'' demo_level0 = Inr s' \<and>
         summaryData s' = ''0\<newline>a\<newline>b\<newline>c\<newline>'' \<and> summaryLine s' = ''c\<newline>'' \<and>
         run_capture demo_env [''hash''] ''cccc'' (demo_level0\<lparr>summaryLine := ''junk''\<rparr>) = Inr s')"
proof -
  obtain s' where r: "run_capture demo_env [''hash''] ''cccc'' demo_level0 = Inr s'"
    by (simp add: demo_defs)
  from capture_buffer_is_reset [OF r, of "''junk''"]
  have "summaryData s' = ''0\<newline>a\<newline>b\<newline>c\<newline>''" and "summaryLine s' = ''c\<newline>''"
    and "run_capture demo_env [''hash''] ''cccc'' (demo_level0\<lparr>summaryLine := ''junk''\<rparr>) = Inr s'"
    by (simp_all add: demo_level0_def demo_env_def demo_cmd_def mk_cmd_def newline_def)
  moreover have "summaryLine demo_level0 = ''b\<newline>''" by (simp add: demo_level0_def)
  ultimately show ?thesis using r by blast
qed

text \<open>
  Claim C4. When the input is empty or makes exactly one chunk at level 0 (for a chunk
  source that covers its stream with non-empty chunks and ends without error), the run
  returns at level 0 without a second level; a successful run writes the line \<open>0\<close>
  followed by the captured output of at most one chunk, none for the empty input. When
  that output is one terminated line, the final output is the line \<open>0\<close> and that line.
\<close>

theorem trivial_input_ends_at_level_zero:
  assumes "\<not> newPolynomial f" and "\<not> checkPolynomial f" and "cmdArgs f \<noteq> []"
    and "chunk_source e f stdin = (cs, AtEOF)"
    and "concat cs = content stdin" and "[] \<notin> set cs"
    and "content stdin = [] \<or> length cs = 1"
  shows "\<exists>r. multicchunker_main e f stdin w = Some r \<and>
             iteration (final r) = 0 \<and> finished (final r) = [] \<and>
             map chunk (cur (final r)) = cs \<and> length cs \<le> 1 \<and>
             (content stdin = [] \<longrightarrow> cur (final r) = []) \<and>
             (exit_status r = 0 \<longrightarrow>
                stdout (final r) = ''0\<newline>'' @ concat (map out (cur (final r))) \<and>
                ((\<forall>d\<in>set (cur (final r)). one_line (out d)) \<longrightarrow>
                   lines_of (stdout (final r)) =
                     ''0'' # map (\<lambda>d. butlast (out d)) (cur (final r))))"
proof -
  let ?s0 = "init_state stdin w :: 'a state"
  have len: "length cs \<le> 1"
  proof (cases "content stdin = []")
    case True
    with assms(5,6) have "cs = []" by (cases cs) auto
    then show ?thesis by simp
  next
    case False
    with assms(7) show ?thesis by simp
  qed
  have empty: "cs = []" if "content stdin = []"
    using that assms(5,6) by (cases cs) auto
  have main: "multicchunker_main e f stdin w = reduction e f ?s0"
    using assms(1-3) by (simp add: multicchunker_main_def)
  have src: "chunk_source e f (input ?s0) = (cs, AtEOF)"
    using assms(4) by (simp add: init_state_def)
  have fmt0: "fmt_int64_line (iteration ?s0) = ''0\<newline>''"
    by (simp add: init_state_def fmt_int64_line_def dec_int_def dec_nat.simps digit_char_def
        newline_def)
  show ?thesis
  proof (cases "level e f ?s0")
    case (Inl s')
    from level_Inl [OF Inl] src obtain ds where
      ds: "cur s' = cur ?s0 @ ds" "map chunk ds = take (length ds) cs" "untouched ?s0 s'"
          "ds \<noteq> [] \<and> \<not> ok (last ds)"
      by auto
    have r: "multicchunker_main e f stdin w = Some (Inl s')"
      unfolding main reduction_def using Inl by (subst reduce.simps) simp
    have "take (length ds) cs = cs" using len ds(4) by (intro take_short) simp_all
    with ds(1,2) have c: "map chunk (cur s') = cs" by (simp add: init_state_def)
    have "cs \<noteq> []" using c ds by (auto simp add: init_state_def)
    with empty have ne: "content stdin \<noteq> []" by blast
    from ds(3) have "iteration s' = 0" "finished s' = []"
      by (simp_all add: untouched_def init_state_def)
    with r c len ne show ?thesis
      by (intro exI [of _ "Inl s'"]) (simp add: final_def exit_status_def)
  next
    case (Inr s')
    from level_Inr [OF Inr] src obtain ds where
      ds: "map chunk ds = cs" "cur s' = cur ?s0 @ ds"
          "summaryData s' = summaryData ?s0 @ fmt_int64_line (iteration ?s0) @ concat (map out ds)"
          "nChunks s' = of_nat (length ds)" "untouched ?s0 s'"
      by auto
    have cur: "cur s' = ds" using ds(2) by (simp add: init_state_def)
    have sd: "summaryData s' = ''0\<newline>'' @ concat (map out ds)"
      using ds(3) fmt0 by (simp add: init_state_def)
    have fr: "iteration s' = 0" "finished s' = []" "stdout s' = []"
      using ds(5) by (simp_all add: untouched_def init_state_def)
    have "length ds \<le> 1" using ds(1) len by auto
    then have "length ds = 0 \<or> length ds = 1" by linarith
    then have n: "nChunks s' = 0 \<or> nChunks s' = 1" using ds(4) by auto
    have red: "reduce e f ?s0 = Some (Inr s')" using Inr n by (subst reduce.simps) simp
    have r: "multicchunker_main e f stdin w = Some (write_final e s')"
      unfolding main reduction_def using red by simp
    have wf: "iteration (final (write_final e s')) = 0 \<and> finished (final (write_final e s')) = [] \<and>
              cur (final (write_final e s')) = ds \<and>
              (exit_status (write_final e s') = 0 \<longrightarrow>
                 stdout (final (write_final e s')) = ''0\<newline>'' @ concat (map out ds))"
      using fr cur sd by (simp add: write_final_def final_def exit_status_def split: option.splits)
    have lines: "lines_of (''0\<newline>'' @ concat (map out ds)) = ''0'' # map (\<lambda>d. butlast (out d)) ds"
      if one: "\<forall>d\<in>set ds. one_line (out d)"
    proof -
      have "lines_of (concat (map out ds)) = map butlast (map out ds)"
        by (rule lines_of_concat) (use one in auto)
      moreover have "lines_of (''0'' @ newline # concat (map out ds)) = ''0'' # lines_of (concat (map out ds))"
        by (rule lines_of_line) (simp add: newline_def)
      ultimately show ?thesis by (simp add: comp_def newline_def)
    qed
    have e0: "ds = []" if "content stdin = []" using empty [OF that] ds(1) by simp
    show ?thesis using r wf lines ds(1) len e0
      by (intro exI [of _ "write_final e s'"]) simp
  qed
qed

theorem trivial_input_ends_at_level_zero_witness:
  "chunk_source demo_env demo_flags (Reader ''abc'' False) = ([''abc''], AtEOF) \<and>
   (\<exists>r. multicchunker_main demo_env demo_flags (Reader ''abc'' False) 0 = Some r \<and>
        exit_status r = 0 \<and> iteration (final r) = 0 \<and> finished (final r) = [] \<and>
        map chunk (cur (final r)) = [''abc''] \<and>
        stdout (final r) = ''0\<newline>a\<newline>'' \<and>
        lines_of (stdout (final r)) = [''0'', ''a''])"
proof -
  let ?rd = "Reader ''abc'' False"
  define s :: "nat state" where "s =
     \<lparr>world = 1, input = Reader ''abc'' False, iteration = 0,
      summaryData = ''0\<newline>a\<newline>'', summaryLine = ''a\<newline>'', nChunks = 1,
      stdout = ''0\<newline>a\<newline>'', stderr = [],
      cur = [\<lparr>chunk = ''abc'', out = ''a\<newline>'', ok = True\<rparr>], finished = [],
      calls = []\<rparr>"
  have h1: "\<not> newPolynomial demo_flags" and h2: "\<not> checkPolynomial demo_flags"
    and h3: "cmdArgs demo_flags \<noteq> []"
    by (simp_all add: demo_flags_def)
  have h4: "chunk_source demo_env demo_flags ?rd = ([''abc''], AtEOF)"
    by (simp add: demo_defs)
  have h5: "concat [''abc''] = content ?rd" and h6: "[] \<notin> set [''abc'']"
    and h7: "content ?rd = [] \<or> length [''abc''] = 1"
    by simp_all
  have lv: "level demo_env demo_flags (init_state ?rd 0) =
              Inr (s\<lparr>stdout := []\<rparr>)"
    by (simp add: s_def demo_defs)
  have "reduce demo_env demo_flags (init_state ?rd 0) = Some (Inr (s\<lparr>stdout := []\<rparr>))"
    by (subst reduce.simps) (simp add: lv, simp add: s_def)
  then have ev: "multicchunker_main demo_env demo_flags ?rd 0 = Some (Inr s)"
    by (simp add: multicchunker_main_def reduction_def write_final_def s_def h1 h2 h3
        demo_env_def)
  from trivial_input_ends_at_level_zero [OF h1 h2 h3 h4 h5 h6 h7, of 0] ev
  have p: "iteration s = 0" "finished s = []" "map chunk (cur s) = [''abc'']"
    and q: "exit_status (Inr s :: nat state + nat state) = 0 \<longrightarrow>
        stdout s = ''0\<newline>'' @ concat (map out (cur s)) \<and>
        ((\<forall>d\<in>set (cur s). one_line (out d)) \<longrightarrow>
           lines_of (stdout s) = ''0'' # map (\<lambda>d. butlast (out d)) (cur s))"
    by (auto simp add: final_def)
  have ex: "exit_status (Inr s :: nat state + nat state) = 0" by (simp add: exit_status_def)
  have one: "\<forall>d\<in>set (cur s). one_line (out d)" by (simp add: s_def one_line_def newline_def)
  from q ex one have "stdout s = ''0\<newline>a\<newline>''" and "lines_of (stdout s) = [''0'', ''a'']"
    by (simp_all add: s_def)
  with p ex ev h4 show ?thesis by (auto simp add: final_def)
qed

text \<open>
  Claim C6. When the processor exits with a non-zero status on some chunk, the
  reduction run ends there with exit status 1: the failed dispatch is the last dispatch
  of the whole run, the summary of the level in progress holds its iteration line and
  the outputs of the chunks dispatched before the failure only, and nothing has been
  written to the standard output. The run does end: a level that exits makes
  \<open>main\<close> return that exit.
\<close>

theorem processor_failure_aborts_run:
  assumes "\<not> newPolynomial f" and "\<not> checkPolynomial f" and "cmdArgs f \<noteq> []"
  shows "(\<forall>s s'. level_start e f (init_state stdin w) s \<and> level e f s = Inl s' \<longrightarrow>
            multicchunker_main e f stdin w = Some (Inl s')) \<and>
         (\<forall>r. multicchunker_main e f stdin w = Some r \<and>
              (\<exists>d\<in>set (all_dispatches (final r)). \<not> ok d) \<longrightarrow>
              exit_status r = 1 \<and> stdout (final r) = [] \<and>
              cur (final r) \<noteq> [] \<and> \<not> ok (last (all_dispatches (final r))) \<and>
              (\<forall>d\<in>set (butlast (all_dispatches (final r))). ok d) \<and>
              summaryData (final r) =
                fmt_int64_line (iteration (final r)) @ concat (map out (butlast (cur (final r)))))"
proof -
  let ?s0 = "init_state stdin w :: 'a state"
  have main: "multicchunker_main e f stdin w = reduction e f ?s0"
    using assms by (simp add: multicchunker_main_def)
  have inv0: "summaryData ?s0 = []" "cur ?s0 = []" "\<forall>d\<in>set (concat (finished ?s0)). ok d"
    by (simp_all add: init_state_def)
  have total: "multicchunker_main e f stdin w = Some (Inl s')"
    if st: "level_start e f ?s0 s" and l: "level e f s = Inl s'" for s s'
  proof -
    have "reduce e f s = Some (Inl s')" using l by (subst reduce.simps) simp
    with reduce_level_start [OF st] show ?thesis unfolding main reduction_def by simp
  qed
  have abort: "exit_status r = 1 \<and> stdout (final r) = [] \<and>
              cur (final r) \<noteq> [] \<and> \<not> ok (last (all_dispatches (final r))) \<and>
              (\<forall>d\<in>set (butlast (all_dispatches (final r))). ok d) \<and>
              summaryData (final r) =
                fmt_int64_line (iteration (final r)) @ concat (map out (butlast (cur (final r))))"
    if run: "multicchunker_main e f stdin w = Some r"
      and bad: "\<exists>d\<in>set (all_dispatches (final r)). \<not> ok d" for r
  proof -
    from run main obtain r0 where
      r0: "reduce e f ?s0 = Some r0"
        and r: "r = (case r0 of Inl s' \<Rightarrow> Inl s' | Inr s' \<Rightarrow> write_final e s')"
      by (auto simp add: reduction_def split: option.splits sum.splits)
    from reduce_Some [OF r0] obtain s where
      st: "level_start e f ?s0 s" and
      cases: "(\<exists>s'. level e f s = Inl s' \<and> r0 = Inl s') \<or>
              (\<exists>s'. level e f s = Inr s' \<and> (nChunks s' = 0 \<or> nChunks s' = 1) \<and> r0 = Inr s')"
      by blast
    from level_start_invariant [OF st inv0]
    have inv: "summaryData s = []" "cur s = []" "stdout s = []"
      "\<forall>d\<in>set (concat (finished s)). ok d"
      by (simp_all add: init_state_def)
    from cases show ?thesis
    proof
      assume "\<exists>s'. level e f s = Inl s' \<and> r0 = Inl s'"
      then obtain s' where l: "level e f s = Inl s'" and r0': "r0 = Inl s'" by blast
      from r r0' have fin: "final r = s'" "exit_status r = 1"
        by (simp_all add: final_def exit_status_def)
      from level_Inl [OF l] inv obtain ds where
        ds: "cur s' = ds" "\<forall>d\<in>set (butlast ds). ok d"
            "summaryData s' = fmt_int64_line (iteration s) @ concat (map out (filter ok ds))"
            "untouched s s'"
            "(ds \<noteq> [] \<and> \<not> ok (last ds)) \<or> (\<forall>d\<in>set ds. ok d)"
        by auto
      have fr: "stdout s' = []" "iteration s' = iteration s" "finished s' = finished s"
        using ds(4) inv by (simp_all add: untouched_def)
      have ad: "all_dispatches s' = concat (finished s) @ ds"
        using ds(1) fr by (simp add: all_dispatches_def)
      have ne: "ds \<noteq> [] \<and> \<not> ok (last ds)"
      proof (rule ccontr)
        assume "\<not> (ds \<noteq> [] \<and> \<not> ok (last ds))"
        with ds(5) have "\<forall>d\<in>set ds. ok d" by blast
        with inv(4) ad have "\<forall>d\<in>set (all_dispatches s'). ok d" by auto
        with bad fin show False by simp
      qed
      then have fl: "filter ok ds = butlast ds" using ds(2) filter_ok_butlast by blast
      have bl: "butlast (all_dispatches s') = concat (finished s) @ butlast ds"
        using ad ne by (simp add: butlast_append)
      have la: "last (all_dispatches s') = last ds" using ad ne by simp
      show ?thesis unfolding fin using ne fl bl la ds(1,2,3) fr inv(4) by auto
    next
      assume "\<exists>s'. level e f s = Inr s' \<and> (nChunks s' = 0 \<or> nChunks s' = 1) \<and> r0 = Inr s'"
      then obtain s' where l: "level e f s = Inr s'" and r0': "r0 = Inr s'" by blast
      from level_Inr [OF l] inv obtain ds where
        ds: "cur s' = ds" "\<forall>d\<in>set ds. ok d" "untouched s s'"
        by auto
      have "finished s' = finished s" using ds(3) by (simp add: untouched_def)
      with r r0' ds(1) have "all_dispatches (final r) = concat (finished s) @ ds"
        using write_final_keeps [of e s'] by (simp add: all_dispatches_def)
      with inv(4) ds(2) have "\<forall>d\<in>set (all_dispatches (final r)). ok d" by auto
      with bad show ?thesis by blast
    qed
  qed
  from total abort show ?thesis by blast
qed

theorem processor_failure_aborts_run_witness:
  "level demo_env demo_flags (init_state demo_failing_stdin 0) = Inl demo_aborted \<and>
   multicchunker_main demo_env demo_flags demo_failing_stdin 0 = Some (Inl demo_aborted) \<and>
   (\<exists>d\<in>set (all_dispatches demo_aborted). \<not> ok d) \<and>
   stdout demo_aborted = [] \<and>
   map chunk (all_dispatches demo_aborted) = [''aaaaaaaa'', ''!bbbbbbb''] \<and>
   map ok (all_dispatches demo_aborted) = [True, False] \<and>
   summaryData demo_aborted = ''0\<newline>a\<newline>''"
proof -
  have h1: "\<not> newPolynomial demo_flags" and h2: "\<not> checkPolynomial demo_flags"
    and h3: "cmdArgs demo_flags \<noteq> []"
    by (simp_all add: demo_flags_def)
  note inst = processor_failure_aborts_run [OF h1 h2 h3, of demo_env demo_failing_stdin 0]
  have st: "level_start demo_env demo_flags (init_state demo_failing_stdin 0)
              (init_state demo_failing_stdin 0)"
    by (rule level_start.first)
  from inst st demo_abort_run
  have run: "multicchunker_main demo_env demo_flags demo_failing_stdin 0 = Some (Inl demo_aborted)"
    by blast
  have bad: "\<exists>d\<in>set (all_dispatches (final (Inl demo_aborted :: nat state + nat state))). \<not> ok d"
    by (simp add: final_def all_dispatches_def demo_aborted_def)
  from inst run bad
  have "stdout (final (Inl demo_aborted :: nat state + nat state)) = []"
    and "\<not> ok (last (all_dispatches (final (Inl demo_aborted :: nat state + nat state))))"
    and "\<forall>d\<in>set (butlast (all_dispatches (final (Inl demo_aborted :: nat state + nat state)))). ok d"
    and "summaryData (final (Inl demo_aborted :: nat state + nat state)) =
           fmt_int64_line (iteration (final (Inl demo_aborted :: nat state + nat state))) @
           concat (map out (butlast (cur (final (Inl demo_aborted :: nat state + nat state)))))"
    by blast+
  then have "stdout demo_aborted = []" and "\<not> ok (last (all_dispatches demo_aborted))"
    and "\<forall>d\<in>set (butlast (all_dispatches demo_aborted)). ok d"
    and "summaryData demo_aborted = ''0\<newline>a\<newline>''"
    by (simp_all add: final_def demo_aborted_def)
  moreover have "map chunk (all_dispatches demo_aborted) = [''aaaaaaaa'', ''!bbbbbbb'']"
    by (simp add: all_dispatches_def demo_aborted_def)
  moreover have "\<exists>d\<in>set (all_dispatches demo_aborted). \<not> ok d"
    using bad by (simp add: final_def)
  moreover have "map ok (all_dispatches demo_aborted) = [True, False]"
    by (simp add: all_dispatches_def demo_aborted_def)
  ultimately show ?thesis using demo_abort_run run by blast
qed

section \<open>Claims about the single-level driver\<close>

text \<open>
  Claim C5. For a stream whose chunk sequence is \<open>cs\<close>, the single-level driver
  dispatches a prefix of \<open>cs\<close> in order, each chunk once, and the standard output is
  the concatenation of the subprocess outputs in that order; only the last dispatch can
  have failed, so nothing is dispatched after a failure, and when no dispatch fails
  every chunk of \<open>cs\<close> is dispatched. The exit status is 0 exactly when the source ended
  with end of file and no dispatch failed.
\<close>

theorem single_level_dispatches_in_order:
  assumes "\<not> newPolynomial f" and "\<not> checkPolynomial f" and "cmdArgs f \<noteq> []"
    and "chunk_source e f stdin = (cs, en)"
  shows "map chunk (cur (final (cchunker_main e f stdin w))) =
           take (length (cur (final (cchunker_main e f stdin w)))) cs \<and>
         stdout (final (cchunker_main e f stdin w)) =
           concat (map out (cur (final (cchunker_main e f stdin w)))) \<and>
         (\<forall>d\<in>set (butlast (cur (final (cchunker_main e f stdin w)))). ok d) \<and>
         ((\<forall>d\<in>set (cur (final (cchunker_main e f stdin w))). ok d) \<longrightarrow>
            map chunk (cur (final (cchunker_main e f stdin w))) = cs) \<and>
         (exit_status (cchunker_main e f stdin w) = 0 \<longleftrightarrow>
            en = AtEOF \<and> (\<forall>d\<in>set (cur (final (cchunker_main e f stdin w))). ok d))"
proof -
  let ?s0 = "init_state stdin w"
  have m: "cchunker_main e f stdin w = single_loop e (cmdArgs f) cs en ?s0"
    using assms by (simp add: cchunker_main_def single_level_def init_state_def)
  from single_loop_trace [of e "cmdArgs f" cs en ?s0] obtain ds where
    ds: "cur (final (single_loop e (cmdArgs f) cs en ?s0)) = cur ?s0 @ ds"
        "map chunk ds = take (length ds) cs"
        "stdout (final (single_loop e (cmdArgs f) cs en ?s0)) = stdout ?s0 @ concat (map out ds)"
        "\<forall>d\<in>set (butlast ds). ok d"
        "(\<forall>d\<in>set ds. ok d) \<longrightarrow> length ds = length cs"
        "exit_status (single_loop e (cmdArgs f) cs en ?s0) = 0 \<longleftrightarrow> en = AtEOF \<and> (\<forall>d\<in>set ds. ok d)"
    by (elim exE conjE)
  have c: "cur (final (cchunker_main e f stdin w)) = ds"
    using ds(1) m by (simp add: init_state_def)
  have o: "stdout (final (cchunker_main e f stdin w)) = concat (map out ds)"
    using ds(3) m by (simp add: init_state_def)
  have all: "map chunk ds = cs" if "\<forall>d\<in>set ds. ok d"
    using ds(2) ds(5) that by simp
  show ?thesis unfolding c o using ds(2,4,6) all m by simp
qed

theorem single_level_dispatches_in_order_witness:
  "chunk_source demo_env demo_flags demo_failing_stdin =
     ([''aaaaaaaa'', ''!bbbbbbb'', ''cccccccc''], AtEOF) \<and>
   map chunk (cur (final (cchunker_main demo_env demo_flags demo_failing_stdin 0))) =
     [''aaaaaaaa'', ''!bbbbbbb''] \<and>
   map ok (cur (final (cchunker_main demo_env demo_flags demo_failing_stdin 0))) =
     [True, False] \<and>
   stdout (final (cchunker_main demo_env demo_flags demo_failing_stdin 0)) = ''a\<newline>'' \<and>
   exit_status (cchunker_main demo_env demo_flags demo_failing_stdin 0) = 1"
proof -
  have h1: "\<not> newPolynomial demo_flags" and h2: "\<not> checkPolynomial demo_flags"
    and h3: "cmdArgs demo_flags \<noteq> []"
    by (simp_all add: demo_flags_def)
  have h4: "chunk_source demo_env demo_flags demo_failing_stdin =
              ([''aaaaaaaa'', ''!bbbbbbb'', ''cccccccc''], AtEOF)"
    by (simp add: demo_failing_stdin_def demo_defs)
  have ev: "cur (final (cchunker_main demo_env demo_flags demo_failing_stdin 0)) =
              [\<lparr>chunk = ''aaaaaaaa'', out = ''a\<newline>'', ok = True\<rparr>,
               \<lparr>chunk = ''!bbbbbbb'', out = [], ok = False\<rparr>]"
    by (simp add: cchunker_main_def single_level_def final_def demo_failing_stdin_def demo_defs)
  from single_level_dispatches_in_order [OF h1 h2 h3 h4, of 0]
  have a: "stdout (final (cchunker_main demo_env demo_flags demo_failing_stdin 0)) =
             concat (map out (cur (final (cchunker_main demo_env demo_flags demo_failing_stdin 0))))"
    and b: "exit_status (cchunker_main demo_env demo_flags demo_failing_stdin 0) = 0 \<longleftrightarrow>
             AtEOF = AtEOF \<and>
             (\<forall>d\<in>set (cur (final (cchunker_main demo_env demo_flags demo_failing_stdin 0))). ok d)"
    by blast+
  have "exit_status (cchunker_main demo_env demo_flags demo_failing_stdin 0) \<noteq> 0"
    using b by (simp add: ev)
  then have x: "exit_status (cchunker_main demo_env demo_flags demo_failing_stdin 0) = 1"
    by (simp add: exit_status_def split: sum.splits)
  from a have "stdout (final (cchunker_main demo_env demo_flags demo_failing_stdin 0)) = ''a\<newline>''"
    by (simp add: ev)
  with x h4 show ?thesis by (simp add: ev)
qed

section \<open>Claims about the command line\<close>

text \<open>
  Claim C7, as stated: every invocation without positional arguments prints the usage
  text and exits with a non-zero status, writing nothing to the standard output. It
  fails: with \<open>-new-polynomial\<close> and no positional argument both programs print a
  polynomial on the standard output and return with status 0, and no usage text is
  printed, because the two one-shot flags are handled before the arguments are looked at.
\<close>

theorem no_arguments_counterexample:
  "cmdArgs (demo_flags\<lparr>newPolynomial := True, cmdArgs := []\<rparr>) = [] \<and>
   multicchunker_main demo_env (demo_flags\<lparr>newPolynomial := True, cmdArgs := []\<rparr>)
     (Reader [] False) 0 =
     Some (Inr ((init_state (Reader [] False) 0)
       \<lparr>stdout := ''17349423945073011\<newline>'', calls := [CallRandomPolynomial]\<rparr>)) \<and>
   cchunker_main demo_env (demo_flags\<lparr>newPolynomial := True, cmdArgs := []\<rparr>)
     (Reader [] False) 0 =
     Inr ((init_state (Reader [] False) 0)
       \<lparr>stdout := ''17349423945073011\<newline>'', calls := [CallRandomPolynomial]\<rparr>)"
  by (simp add: multicchunker_main_def cchunker_main_def demo_flags_def demo_env_def
      new_polynomial_action_def init_state_def fmt_default_polynomial)

text \<open>
  Claim C7, amended: every invocation of either program with neither
  \<open>-new-polynomial\<close> nor \<open>-check-polynomial\<close> set and no positional argument
  prints the usage text and exits with status 1; no chunk is dispatched and nothing is
  written to the standard output.
\<close>

theorem no_arguments_prints_usage:
  assumes "\<not> newPolynomial f" and "\<not> checkPolynomial f" and "cmdArgs f = []"
  shows "multicchunker_main e f stdin w =
           Some (Inl ((init_state stdin w)\<lparr>stderr := [UsageText]\<rparr>)) \<and>
         cchunker_main e f stdin w = Inl ((init_state stdin w)\<lparr>stderr := [UsageText]\<rparr>) \<and>
         exit_status (cchunker_main e f stdin w) = 1 \<and>
         all_dispatches ((init_state stdin w)\<lparr>stderr := [UsageText]\<rparr>) = [] \<and>
         stdout ((init_state stdin w)\<lparr>stderr := [UsageText]\<rparr>) = []"
  using assms
  by (simp add: multicchunker_main_def cchunker_main_def usage_def init_state_def
      exit_status_def all_dispatches_def)

theorem no_arguments_prints_usage_witness:
  "multicchunker_main demo_env (demo_flags\<lparr>cmdArgs := []\<rparr>) (Reader ''abc'' False) 0 =
     Some (Inl ((init_state (Reader ''abc'' False) 0)\<lparr>stderr := [UsageText]\<rparr>)) \<and>
   cchunker_main demo_env (demo_flags\<lparr>cmdArgs := []\<rparr>) (Reader ''abc'' False) 0 =
     Inl ((init_state (Reader ''abc'' False) 0)\<lparr>stderr := [UsageText]\<rparr>)"
  using no_arguments_prints_usage [of "demo_flags\<lparr>cmdArgs := []\<rparr>" demo_env "Reader ''abc'' False" 0]
  by (simp add: demo_flags_def)

text \<open>
  Claim C10. With both \<open>-new-polynomial\<close> and \<open>-check-polynomial\<close> set, both
  programs do exactly what the generate branch does: the only library call is the
  generation of a polynomial, the irreducibility check is never called, no chunk is
  dispatched, and when generation and printing succeed the standard output is the
  decimal polynomial on a line and the exit status is 0.
\<close>

theorem generate_wins_over_check:
  assumes "newPolynomial f" and "checkPolynomial f"
  shows "multicchunker_main e f stdin w = Some (new_polynomial_action e (init_state stdin w)) \<and>
         cchunker_main e f stdin w = new_polynomial_action e (init_state stdin w) \<and>
         calls (final (new_polynomial_action e (init_state stdin w))) = [CallRandomPolynomial] \<and>
         all_dispatches (final (new_polynomial_action e (init_state stdin w))) = [] \<and>
         (\<forall>p. random_polynomial e w = Some p \<and> stdout_write e w (fmt_uint64_line p) = None \<longrightarrow>
              stdout (final (new_polynomial_action e (init_state stdin w))) = fmt_uint64_line p \<and>
              exit_status (new_polynomial_action e (init_state stdin w)) = 0)"
  using assms
  by (auto simp add: multicchunker_main_def cchunker_main_def new_polynomial_action_def
      init_state_def final_def exit_status_def all_dispatches_def Let_def split: option.splits)

theorem generate_wins_over_check_witness:
  "multicchunker_main demo_env (demo_flags\<lparr>newPolynomial := True, checkPolynomial := True\<rparr>)
     (Reader [] False) 0 =
     Some (Inr ((init_state (Reader [] False) 0)
       \<lparr>stdout := ''17349423945073011\<newline>'', calls := [CallRandomPolynomial]\<rparr>))"
  using generate_wins_over_check
    [of "demo_flags\<lparr>newPolynomial := True, checkPolynomial := True\<rparr>" demo_env
        "Reader [] False" 0]
  by (simp add: demo_flags_def demo_env_def new_polynomial_action_def init_state_def
      fmt_default_polynomial)

section \<open>Size profiles: the claims\<close>

text \<open>
  Claim C8. Each of the three size profiles of the program's constants satisfies the
  SizeProfile invariant: the minimum size is strictly below the maximum size, and the
  expected chunk size \<open>2 ^ averageBits\<close> lies between the two, bounds included.
\<close>

theorem profiles_satisfy_invariant:
  "profile_ok small_profile \<and> profile_ok standard_profile \<and> profile_ok large_profile"
  by (simp add: profile_ok_def small_profile_def standard_profile_def large_profile_def
      SmallMinSize_def SmallMaxSize_def SmallBits_def StandardMinSize_def StandardMaxSize_def
      StandardBits_def LargeMinSize_def LargeMaxSize_def LargeBits_def kiB_def miB_def)

text \<open>
  Claim C3, as stated: with both \<open>-small-chunks\<close> and \<open>-large-chunks\<close> set the
  large profile is applied. It fails: the small flag is tested first and the large flag
  sits in its \<open>else\<close> branch, so the selected profile is the small one, which differs
  from the large one.
\<close>

theorem both_flags_not_large:
  "select_profile (demo_flags\<lparr>smallChunks := True, largeChunks := True\<rparr>) \<noteq> large_profile"
  by (simp add: select_profile_def demo_flags_def small_profile_def large_profile_def
      SmallMinSize_def LargeMinSize_def kiB_def)

text \<open>
  Claim C3, amended: with both profile flags set, the small profile is the one applied
  to the chunk source, in both programs (small wins because it is tested first).
\<close>

theorem both_flags_select_small:
  assumes "smallChunks f" and "largeChunks f"
  shows "select_profile f = small_profile \<and>
         chunk_source e f rd = chunker e small_profile (polynomialInt f) rd"
  using assms by (simp add: select_profile_def chunk_source_def)

theorem both_flags_select_small_witness:
  "select_profile (demo_flags\<lparr>smallChunks := True, largeChunks := True\<rparr>) = small_profile \<and>
   chunk_source demo_env (demo_flags\<lparr>smallChunks := True, largeChunks := True\<rparr>)
     (Reader ''abcdefghij'' False) = ([''abcdefgh'', ''ij''], AtEOF)"
  using both_flags_select_small
    [of "demo_flags\<lparr>smallChunks := True, largeChunks := True\<rparr>" demo_env
        "Reader ''abcdefghij'' False"]
  by (simp add: demo_flags_def demo_env_def demo_chunker_def)

end
